theory Spec2Isabelle
  imports Main "HOL-Library.Word"
begin

section \<open>Errors\<close>

text \<open>
  A Go \<open>error\<close> is either a plain message (\<open>errors.New\<close>, \<open>fmt.Errorf\<close> without
  \<open>%w\<close>) or a message that wraps another error (\<open>fmt.Errorf\<close> with \<open>%w\<close>).
  A nil error is \<open>None\<close> of \<open>error option\<close>.
\<close>

datatype error = New string | Wrap string error

fun Error :: "error \<Rightarrow> string" where
  "Error (New m) = m"
| "Error (Wrap m e) = m"

fun Unwrap :: "error \<Rightarrow> error option" where
  "Unwrap (New m) = None"
| "Unwrap (Wrap m e) = Some e"

text \<open>\<open>Errorf_w pre e\<close> is \<open>fmt.Errorf(pre + "%w", e)\<close>.\<close>

definition Errorf_w :: "string \<Rightarrow> error \<Rightarrow> error" where
  "Errorf_w pre e = Wrap (pre @ Error e) e"

section \<open>The store\<close>

definition statusRunning :: string where "statusRunning = ''running''"
definition statusCompleted :: string where "statusCompleted = ''completed''"
definition statusFailed :: string where "statusFailed = ''failed''"

text \<open>
  One row of the table \<open>steps\<close>, without the two columns of its primary key
  \<open>(workflow_id, step_key)\<close>: the table is a map from that key to the other columns.
  \<open>output_json\<close> and \<open>error_text\<close> are the two columns that may be NULL.
\<close>

record row =
  step_id :: string
  sequence :: int
  status :: string
  output_json :: "string option"
  error_text :: "string option"
  run_id :: string
  started_at :: string
  updated_at :: string

type_synonym db = "string \<times> string \<rightharpoonup> row"

record StepRecord =
  WorkflowID :: string
  StepKey :: string
  StepID :: string
  Sequence :: int
  Status :: string
  OutputJSON :: string
  ErrorText :: string
  RunID :: string
  StartedAt :: string
  UpdatedAt :: string

record stepRef =
  ref_StepID :: string
  ref_Sequence :: int
  ref_StepKey :: string

text \<open>\<open>asString\<close> on a text column: NULL reads as the empty string.\<close>

definition asString :: "string option \<Rightarrow> string" where
  "asString v = (case v of None \<Rightarrow> [] | Some x \<Rightarrow> x)"

definition parseStepRecord :: "string \<Rightarrow> string \<Rightarrow> row \<Rightarrow> StepRecord" where
  "parseStepRecord wid key r =
     \<lparr>WorkflowID = wid, StepKey = key, StepID = step_id r, Sequence = sequence r,
      Status = status r, OutputJSON = asString (output_json r),
      ErrorText = asString (error_text r), RunID = run_id r,
      StartedAt = started_at r, UpdatedAt = updated_at r\<rparr>"

definition emptyStepRecord :: StepRecord where
  "emptyStepRecord =
     \<lparr>WorkflowID = [], StepKey = [], StepID = [], Sequence = 0, Status = [],
      OutputJSON = [], ErrorText = [], RunID = [], StartedAt = [], UpdatedAt = []\<rparr>"

text \<open>
  Every store call runs the \<open>sqlite3\<close> binary. Whether that run fails is not decided
  by the program: the first argument of each operation is the error the back end
  reports for this call (after the busy retries of \<open>execWrite\<close>), \<open>None\<close> when the
  statement ran. A failed statement leaves the table as it was.
\<close>

definition execWrite :: "error option \<Rightarrow> (db \<Rightarrow> db) \<Rightarrow> db \<Rightarrow> error option \<times> db" where
  "execWrite fault stmt d = (case fault of None \<Rightarrow> (None, stmt d) | Some e \<Rightarrow> (Some e, d))"

definition GetStep :: "error option \<Rightarrow> db \<Rightarrow> string \<Rightarrow> string \<Rightarrow> StepRecord \<times> bool \<times> error option" where
  "GetStep fault d workflowID stepKey =
     (case fault of
        Some e \<Rightarrow> (emptyStepRecord, False, Some e)
      | None \<Rightarrow>
          (case d (workflowID, stepKey) of
             None \<Rightarrow> (emptyStepRecord, False, None)
           | Some r \<Rightarrow> (parseStepRecord workflowID stepKey r, True, None)))"

text \<open>
  \<open>INSERT ... ON CONFLICT(workflow_id, step_key) DO UPDATE SET ... WHERE steps.status <> 'completed'\<close>;
  \<open>now\<close> is the formatted \<open>time.Now()\<close> of the call.
\<close>

definition upsert_stmt :: "string \<Rightarrow> string \<Rightarrow> stepRef \<Rightarrow> string \<Rightarrow> db \<Rightarrow> db" where
  "upsert_stmt now workflowID ref runID d =
     (case d (workflowID, ref_StepKey ref) of
        None \<Rightarrow>
          d((workflowID, ref_StepKey ref) \<mapsto>
            \<lparr>step_id = ref_StepID ref, sequence = ref_Sequence ref, status = statusRunning,
             output_json = None, error_text = None, run_id = runID,
             started_at = now, updated_at = now\<rparr>)
      | Some r \<Rightarrow>
          if status r \<noteq> statusCompleted
          then d((workflowID, ref_StepKey ref) \<mapsto>
                 r\<lparr>status := statusRunning, output_json := None, error_text := None,
                   run_id := runID, started_at := now, updated_at := now\<rparr>)
          else d)"

definition UpsertRunning :: "error option \<Rightarrow> string \<Rightarrow> db \<Rightarrow> string \<Rightarrow> stepRef \<Rightarrow> string \<Rightarrow> error option \<times> db" where
  "UpsertRunning fault now d workflowID ref runID =
     execWrite fault (upsert_stmt now workflowID ref runID) d"

text \<open>\<open>UPDATE steps SET status, output_json, error_text=NULL, run_id, updated_at WHERE key\<close>.\<close>

definition completed_stmt :: "string \<Rightarrow> string \<Rightarrow> string \<Rightarrow> string \<Rightarrow> string \<Rightarrow> db \<Rightarrow> db" where
  "completed_stmt now workflowID stepKey runID outputJSON d =
     (case d (workflowID, stepKey) of
        None \<Rightarrow> d
      | Some r \<Rightarrow>
          d((workflowID, stepKey) \<mapsto>
            r\<lparr>status := statusCompleted, output_json := Some outputJSON, error_text := None,
              run_id := runID, updated_at := now\<rparr>))"

definition MarkCompleted :: "error option \<Rightarrow> string \<Rightarrow> db \<Rightarrow> string \<Rightarrow> string \<Rightarrow> string \<Rightarrow> string \<Rightarrow> error option \<times> db" where
  "MarkCompleted fault now d workflowID stepKey runID outputJSON =
     execWrite fault (completed_stmt now workflowID stepKey runID outputJSON) d"

text \<open>\<open>UPDATE steps SET status, error_text, run_id, updated_at WHERE key\<close>: four columns.\<close>

definition failed_stmt :: "string \<Rightarrow> string \<Rightarrow> string \<Rightarrow> string \<Rightarrow> string \<Rightarrow> db \<Rightarrow> db" where
  "failed_stmt now workflowID stepKey runID errText d =
     (case d (workflowID, stepKey) of
        None \<Rightarrow> d
      | Some r \<Rightarrow>
          d((workflowID, stepKey) \<mapsto>
            r\<lparr>status := statusFailed, error_text := Some errText,
              run_id := runID, updated_at := now\<rparr>))"

definition MarkFailed :: "error option \<Rightarrow> string \<Rightarrow> db \<Rightarrow> string \<Rightarrow> string \<Rightarrow> string \<Rightarrow> string \<Rightarrow> error option \<times> db" where
  "MarkFailed fault now d workflowID stepKey runID errText =
     execWrite fault (failed_stmt now workflowID stepKey runID errText) d"

section \<open>Step identity\<close>

text \<open>
  A Go string is read here through the runes that \<open>range\<close> yields (a code point per
  element, U+FFFD for a byte that is not valid UTF-8). What the builder of
  \<open>resolveStepID\<close> holds is bytes, all of them ASCII, so it is a \<open>string\<close>.
\<close>

type_synonym rune = nat

definition runes :: "string \<Rightarrow> rune list" where
  "runes s = map of_char s"

text \<open>
  \<open>unicode.IsSpace\<close>, as its documentation lists it: tab, newline, vertical tab, form
  feed, carriage return, space, U+0085, U+00A0, and beyond Latin-1 the code points with
  the White_Space property.
\<close>

definition unicode_IsSpace :: "rune \<Rightarrow> bool" where
  "unicode_IsSpace r =
     ((9 \<le> r \<and> r \<le> 13) \<or> r = 32 \<or> r = 133 \<or> r = 160 \<or> r = 5760 \<or>
      (8192 \<le> r \<and> r \<le> 8202) \<or> r = 8232 \<or> r = 8233 \<or> r = 8239 \<or> r = 8287 \<or> r = 12288)"

definition strings_TrimSpace :: "rune list \<Rightarrow> rune list" where
  "strings_TrimSpace s = rev (dropWhile unicode_IsSpace (rev (dropWhile unicode_IsSpace s)))"

text \<open>
  \<open>strings.ToLower\<close>: a string of ASCII only is lowered byte by byte; any other string
  goes through \<open>unicode.ToLower\<close> rune by rune. The Unicode case tables are not part of
  this development: \<open>lower\<close> stands for \<open>unicode.ToLower\<close>.
\<close>

definition strings_ToLower :: "(rune \<Rightarrow> rune) \<Rightarrow> rune list \<Rightarrow> rune list" where
  "strings_ToLower lower s =
     (if list_all (\<lambda>r. r < 128) s
      then map (\<lambda>r. if 65 \<le> r \<and> r \<le> 90 then r + 32 else r) s
      else map lower s)"

text \<open>\<open>strings.Trim(s, cutset)\<close> on a string of ASCII bytes.\<close>

definition strings_Trim :: "string \<Rightarrow> string \<Rightarrow> string" where
  "strings_Trim s cutset =
     rev (dropWhile (\<lambda>c. c \<in> set cutset) (rev (dropWhile (\<lambda>c. c \<in> set cutset) s)))"

text \<open>The loop \<open>for _, r := range id\<close> of \<open>resolveStepID\<close>, with its builder \<open>b\<close>.\<close>

fun range_loop :: "rune list \<Rightarrow> string \<Rightarrow> string" where
  "range_loop [] b = b"
| "range_loop (r # rs) b =
     range_loop rs
       (if 97 \<le> r \<and> r \<le> 122 then b @ [char_of r]
        else if 48 \<le> r \<and> r \<le> 57 then b @ [char_of r]
        else if r = 95 \<or> r = 45 \<or> r = 46 then b @ [char_of r]
        else b @ [CHR ''_''])"

text \<open>
  \<open>auto\<close> is what \<open>autoStepID()\<close> returns at this call (it reads the call stack and,
  failing that, the clock).
\<close>

definition resolveStepID :: "(rune \<Rightarrow> rune) \<Rightarrow> rune list \<Rightarrow> rune list \<Rightarrow> string" where
  "resolveStepID lower auto id0 =
     (let id1 = strings_TrimSpace id0;
          id2 = (if id1 = [] then auto else id1);
          id3 = strings_ToLower lower id2;
          clean = strings_Trim (range_loop id3 []) ''_''
      in if clean = [] then ''step'' else clean)"

text \<open>
  The wording of the normalisation rule, step by step: trim outer whitespace, lowercase,
  keep the characters of \<open>a-z\<close>, \<open>0-9\<close>, \<open>_\<close>, \<open>-\<close>, \<open>.\<close> and replace every other one
  by \<open>_\<close>, trim leading and trailing underscores, and use \<open>step\<close> for an empty result.
\<close>

definition kept_chars :: "rune list" where
  "kept_chars = runes ''abcdefghijklmnopqrstuvwxyz0123456789_-.''"

definition trim_underscores :: "rune list \<Rightarrow> rune list" where
  "trim_underscores s = rev (dropWhile (\<lambda>r. r = 95) (rev (dropWhile (\<lambda>r. r = 95) s)))"

definition normalise_spec :: "(rune \<Rightarrow> rune) \<Rightarrow> rune list \<Rightarrow> rune list" where
  "normalise_spec lower s =
     (let kept = map (\<lambda>r. if r \<in> set kept_chars then r else 95)
                     (strings_ToLower lower (strings_TrimSpace s));
          trimmed = trim_underscores kept
      in if trimmed = [] then runes ''step'' else trimmed)"

section \<open>Context\<close>

record Store =
  dbPath :: string
  busyTimeout :: int
  maxRetries :: int
  retryBackoff :: int

text \<open>
  \<open>store\<close> is the pointer to the store handle, \<open>None\<close> when nil; the table itself is
  the \<open>db\<close> threaded through the operations. Go's \<open>int\<close> and \<open>time.Duration\<close> are
  64-bit signed.
\<close>

record Context =
  ctx_WorkflowID :: string
  ctx_RunID :: string
  ZombieTimeout :: "64 word"
  store :: "Store option"
  stepCounters :: "string \<rightharpoonup> 64 word"

text \<open>\<open>runID\<close> is what \<open>newRunID()\<close> returns (clock and random bytes).\<close>

definition NewContext :: "string \<Rightarrow> string \<Rightarrow> Store option \<Rightarrow> Context" where
  "NewContext runID workflowID st =
     \<lparr>ctx_WorkflowID = workflowID, ctx_RunID = runID, ZombieTimeout = 0,
      store = st, stepCounters = Map.empty\<rparr>"

definition WithZombieTimeout :: "Context \<Rightarrow> 64 word \<Rightarrow> Context" where
  "WithZombieTimeout c dur = c\<lparr>ZombieTimeout := dur\<rparr>"

text \<open>Decimal digits of a natural number, most significant first.\<close>

fun digits :: "nat \<Rightarrow> string" where
  "digits n = (if n < 10 then [char_of (48 + n)]
               else digits (n div 10) @ [char_of (48 + n mod 10)])"

declare digits.simps [simp del]

text \<open>\<open>%06d\<close>: width 6, padded with zeros, the sign first.\<close>

definition pad0 :: "nat \<Rightarrow> string \<Rightarrow> string" where
  "pad0 width s = replicate (width - length s) CHR ''0'' @ s"

definition Sprintf_06d :: "int \<Rightarrow> string" where
  "Sprintf_06d v = (if v < 0 then CHR ''-'' # pad0 5 (digits (nat (- v)))
                    else pad0 6 (digits (nat v)))"

definition counter :: "(string \<rightharpoonup> 64 word) \<Rightarrow> string \<Rightarrow> 64 word" where
  "counter m k = (case m k of None \<Rightarrow> 0 | Some v \<Rightarrow> v)"

definition nextStepRef :: "(rune \<Rightarrow> rune) \<Rightarrow> rune list \<Rightarrow> Context \<Rightarrow> rune list \<Rightarrow> stepRef \<times> Context" where
  "nextStepRef lower auto c id0 =
     (let stepID = resolveStepID lower auto id0;
          counters = (stepCounters c)(stepID \<mapsto> counter (stepCounters c) stepID + 1);
          seq = sint (counter counters stepID)
      in (\<lparr>ref_StepID = stepID, ref_Sequence = seq,
           ref_StepKey = stepID @ ''#'' @ Sprintf_06d seq\<rparr>,
          c\<lparr>stepCounters := counters\<rparr>))"

text \<open>
  A run of \<open>nextStepRef\<close> calls on one context; each call comes with the
  \<open>autoStepID()\<close> of its call site and the id it passes.
\<close>

fun issue :: "(rune \<Rightarrow> rune) \<Rightarrow> Context \<Rightarrow> (rune list \<times> rune list) list \<Rightarrow> Context" where
  "issue lower c [] = c"
| "issue lower c (x # xs) = issue lower (snd (nextStepRef lower (fst x) c (snd x))) xs"

section \<open>The step primitive\<close>

text \<open>
  What one \<open>Step\<close> call takes from outside the program: \<open>unicode.ToLower\<close> and the
  \<open>autoStepID()\<close> of the call site, the back end's verdict on each store statement the
  call may issue, the formatted clock readings of the two writes, \<open>time.Parse\<close> with
  layout \<open>RFC3339Nano\<close> (an instant is a number of nanoseconds; \<open>None\<close> when the
  text does not parse) and the clock that \<open>time.Since\<close> reads.
\<close>

record env =
  unicode_ToLower :: "rune \<Rightarrow> rune"
  auto_id :: "rune list"
  get_fault :: "error option"
  upsert_fault :: "error option"
  failed_fault :: "error option"
  completed_fault :: "error option"
  upsert_now :: string
  mark_now :: string
  time_Parse :: "string \<Rightarrow> int option"
  time_Now :: int

text \<open>
  The result type \<open>T\<close> with its zero value and its JSON coding. \<open>Unmarshal\<close> gives the
  variable it filled and the error; \<open>Marshal\<close> the payload and the error.
\<close>

record 'a codec =
  zero :: 'a
  Marshal :: "'a \<Rightarrow> string \<times> error option"
  Unmarshal :: "string \<Rightarrow> 'a \<times> error option"

text \<open>\<open>Time.Sub\<close> saturates at the least and greatest \<open>Duration\<close>.\<close>

definition time_Sub :: "int \<Rightarrow> int \<Rightarrow> int" where
  "time_Sub t u =
     (if t - u > 2 ^ 63 - 1 then 2 ^ 63 - 1
      else if t - u < - (2 ^ 63) then - (2 ^ 63)
      else t - u)"

definition canTakeOverZombie :: "env \<Rightarrow> Context \<Rightarrow> StepRecord \<Rightarrow> bool" where
  "canTakeOverZombie e c record =
     (if sint (ZombieTimeout c) \<le> 0 then True
      else (case time_Parse e (UpdatedAt record) of
              None \<Rightarrow> True
            | Some updated \<Rightarrow> time_Sub (time_Now e) updated \<ge> sint (ZombieTimeout c)))"

datatype claimResult = claimExecute | claimCached

text \<open>
  The four places where \<open>claimStep\<close> upserts differ in the text of their error only:
  \<open>what\<close> is that text up to the step key.
\<close>

definition claim_upsert :: "env \<Rightarrow> Context \<Rightarrow> db \<Rightarrow> stepRef \<Rightarrow> string \<Rightarrow> (claimResult \<times> string \<times> error option) \<times> db" where
  "claim_upsert e c d ref what =
     (case UpsertRunning (upsert_fault e) (upsert_now e) d (ctx_WorkflowID c) ref (ctx_RunID c) of
        (Some err, d') \<Rightarrow>
          ((claimExecute, [], Some (Errorf_w (what @ ref_StepKey ref @ '': '') err)), d')
      | (None, d') \<Rightarrow> ((claimExecute, [], None), d'))"

definition claimStep :: "env \<Rightarrow> Context \<Rightarrow> db \<Rightarrow> stepRef \<Rightarrow> (claimResult \<times> string \<times> error option) \<times> db" where
  "claimStep e c d ref =
     (case GetStep (get_fault e) d (ctx_WorkflowID c) (ref_StepKey ref) of
        (record, found, Some err) \<Rightarrow>
          ((claimExecute, [],
            Some (Errorf_w (''load step state for '' @ ref_StepKey ref @ '': '') err)), d)
      | (record, found, None) \<Rightarrow>
          if \<not> found then claim_upsert e c d ref ''insert running step ''
          else if Status record = statusCompleted then ((claimCached, OutputJSON record, None), d)
          else if Status record = statusFailed then claim_upsert e c d ref ''retry failed step ''
          else if Status record = statusRunning then
            (if RunID record = ctx_RunID c
             then ((claimExecute, [],
                    Some (New (''step '' @ ref_StepKey ref @ '' is already running in this execution''))), d)
             else if \<not> canTakeOverZombie e c record
             then ((claimExecute, [],
                    Some (New (''step '' @ ref_StepKey ref @ '' is still running under run_id=''
                               @ RunID record))), d)
             else claim_upsert e c d ref ''take over zombie step '')
          else claim_upsert e c d ref ''reset unknown state for step '')"

text \<open>
  What a \<open>Step\<close> call leaves behind: the two values it returns, the context (its
  counters have moved), the table, and the world outside the store on which the step
  function acts. \<open>fn_calls\<close> counts the invocations of the step function.
\<close>

record ('a, 'w) result =
  ret :: 'a
  err :: "error option"
  ctx_out :: "Context option"
  db_out :: db
  world_out :: 'w
  fn_calls :: nat

text \<open>
  The step function returns a value and an error and acts on the world \<open>'w\<close>; a nil
  function is \<open>None\<close>, and so is a nil context.
\<close>

type_synonym ('a, 'w) stepfn = "'w \<Rightarrow> ('a \<times> error option) \<times> 'w"

definition execute :: "'a codec \<Rightarrow> env \<Rightarrow> Context \<Rightarrow> stepRef \<Rightarrow> ('a, 'w) stepfn \<Rightarrow> db \<Rightarrow> 'w \<Rightarrow> ('a, 'w) result" where
  "execute cd e c ref fn d w =
     (case fn w of
        ((result, Some ferr), w') \<Rightarrow>
          \<lparr>ret = zero cd,
           err = Some (Errorf_w (''step '' @ ref_StepKey ref @ '' failed: '') ferr),
           ctx_out = Some c,
           db_out = snd (MarkFailed (failed_fault e) (mark_now e) d (ctx_WorkflowID c)
                           (ref_StepKey ref) (ctx_RunID c) (Error ferr)),
           world_out = w', fn_calls = 1\<rparr>
      | ((result, None), w') \<Rightarrow>
          (case Marshal cd result of
             (payload, Some merr) \<Rightarrow>
               \<lparr>ret = zero cd,
                err = Some (Errorf_w (''marshal step result for '' @ ref_StepKey ref @ '': '') merr),
                ctx_out = Some c,
                db_out = snd (MarkFailed (failed_fault e) (mark_now e) d (ctx_WorkflowID c)
                                (ref_StepKey ref) (ctx_RunID c) (''marshal error: '' @ Error merr)),
                world_out = w', fn_calls = 1\<rparr>
           | (payload, None) \<Rightarrow>
               (case MarkCompleted (completed_fault e) (mark_now e) d (ctx_WorkflowID c)
                       (ref_StepKey ref) (ctx_RunID c) payload of
                  (Some cerr, d') \<Rightarrow>
                    \<lparr>ret = zero cd,
                     err = Some (Errorf_w (''step '' @ ref_StepKey ref @
                              '' executed but completion checkpoint failed (possible zombie step): '') cerr),
                     ctx_out = Some c, db_out = d', world_out = w', fn_calls = 1\<rparr>
                | (None, d') \<Rightarrow>
                    \<lparr>ret = result, err = None, ctx_out = Some c, db_out = d',
                     world_out = w', fn_calls = 1\<rparr>)))"

definition Step :: "'a codec \<Rightarrow> env \<Rightarrow> Context option \<Rightarrow> rune list \<Rightarrow> ('a, 'w) stepfn option \<Rightarrow> db \<Rightarrow> 'w \<Rightarrow> ('a, 'w) result" where
  "Step cd e ctx id0 fn d w =
     (case ctx of
        None \<Rightarrow>
          \<lparr>ret = zero cd, err = Some (New ''nil durable context''), ctx_out = ctx,
           db_out = d, world_out = w, fn_calls = 0\<rparr>
      | Some c0 \<Rightarrow>
          (case store c0 of
             None \<Rightarrow>
               \<lparr>ret = zero cd, err = Some (New ''nil durable store''), ctx_out = ctx,
                db_out = d, world_out = w, fn_calls = 0\<rparr>
           | Some st \<Rightarrow>
               (case fn of
                  None \<Rightarrow>
                    \<lparr>ret = zero cd, err = Some (New ''step function is nil''), ctx_out = ctx,
                     db_out = d, world_out = w, fn_calls = 0\<rparr>
                | Some f \<Rightarrow>
                    (case nextStepRef (unicode_ToLower e) (auto_id e) c0 id0 of
                       (ref, c) \<Rightarrow>
                         (case claimStep e c d ref of
                            ((claim, cachedJSON, Some cerr), d') \<Rightarrow>
                              \<lparr>ret = zero cd, err = Some cerr, ctx_out = Some c,
                               db_out = d', world_out = w, fn_calls = 0\<rparr>
                          | ((claim, cachedJSON, None), d') \<Rightarrow>
                              if claim = claimCached
                              then (case Unmarshal cd cachedJSON of
                                      (out, Some uerr) \<Rightarrow>
                                        \<lparr>ret = zero cd,
                                         err = Some (Errorf_w (''decode cached step result for ''
                                                  @ ref_StepKey ref @ '': '') uerr),
                                         ctx_out = Some c, db_out = d', world_out = w,
                                         fn_calls = 0\<rparr>
                                    | (out, None) \<Rightarrow>
                                        \<lparr>ret = out, err = None, ctx_out = Some c,
                                         db_out = d', world_out = w, fn_calls = 0\<rparr>)
                              else execute cd e c ref f d' w)))))"

text \<open>
  A workflow function gets the context and acts on the table and the world; it returns
  its error.
\<close>

type_synonym 'w WorkflowFunc = "Context \<Rightarrow> db \<times> 'w \<Rightarrow> error option \<times> db \<times> 'w"

text \<open>The second component counts the invocations of the workflow function.\<close>

definition RunWorkflow :: "string \<Rightarrow> Store option \<Rightarrow> string \<Rightarrow> 'w WorkflowFunc option \<Rightarrow> db \<times> 'w \<Rightarrow> (error option \<times> db \<times> 'w) \<times> nat" where
  "RunWorkflow runID st workflowID fn s =
     (case st of
        None \<Rightarrow> ((Some (New ''nil store''), s), 0)
      | Some h \<Rightarrow>
          if workflowID = [] then ((Some (New ''workflow id is required''), s), 0)
          else (case fn of
                  None \<Rightarrow> ((Some (New ''workflow function is nil''), s), 0)
                | Some f \<Rightarrow> (f (NewContext runID workflowID st) s, 1)))"

text \<open>
  A step function is a Go closure: besides the world it may use the store, for instance
  by calling \<open>Step\<close> on a context of its own. \<open>Step_closure\<close> is \<open>Step\<close> with such a
  function: the table the function leaves is the one the writes after it meet.
\<close>

type_synonym ('a, 'w) closure = "db \<times> 'w \<Rightarrow> ('a \<times> error option) \<times> db \<times> 'w"

definition execute_closure :: "'a codec \<Rightarrow> env \<Rightarrow> Context \<Rightarrow> stepRef \<Rightarrow> ('a, 'w) closure \<Rightarrow> db \<Rightarrow> 'w \<Rightarrow> ('a, 'w) result" where
  "execute_closure cd e c ref fn d w =
     (case fn (d, w) of
        ((result, Some ferr), d1, w') \<Rightarrow>
          \<lparr>ret = zero cd,
           err = Some (Errorf_w (''step '' @ ref_StepKey ref @ '' failed: '') ferr),
           ctx_out = Some c,
           db_out = snd (MarkFailed (failed_fault e) (mark_now e) d1 (ctx_WorkflowID c)
                           (ref_StepKey ref) (ctx_RunID c) (Error ferr)),
           world_out = w', fn_calls = 1\<rparr>
      | ((result, None), d1, w') \<Rightarrow>
          (case Marshal cd result of
             (payload, Some merr) \<Rightarrow>
               \<lparr>ret = zero cd,
                err = Some (Errorf_w (''marshal step result for '' @ ref_StepKey ref @ '': '') merr),
                ctx_out = Some c,
                db_out = snd (MarkFailed (failed_fault e) (mark_now e) d1 (ctx_WorkflowID c)
                                (ref_StepKey ref) (ctx_RunID c) (''marshal error: '' @ Error merr)),
                world_out = w', fn_calls = 1\<rparr>
           | (payload, None) \<Rightarrow>
               (case MarkCompleted (completed_fault e) (mark_now e) d1 (ctx_WorkflowID c)
                       (ref_StepKey ref) (ctx_RunID c) payload of
                  (Some cerr, d') \<Rightarrow>
                    \<lparr>ret = zero cd,
                     err = Some (Errorf_w (''step '' @ ref_StepKey ref @
                              '' executed but completion checkpoint failed (possible zombie step): '') cerr),
                     ctx_out = Some c, db_out = d', world_out = w', fn_calls = 1\<rparr>
                | (None, d') \<Rightarrow>
                    \<lparr>ret = result, err = None, ctx_out = Some c, db_out = d',
                     world_out = w', fn_calls = 1\<rparr>)))"

definition Step_closure :: "'a codec \<Rightarrow> env \<Rightarrow> Context option \<Rightarrow> rune list \<Rightarrow> ('a, 'w) closure option \<Rightarrow> db \<Rightarrow> 'w \<Rightarrow> ('a, 'w) result" where
  "Step_closure cd e ctx id0 fn d w =
     (case ctx of
        None \<Rightarrow>
          \<lparr>ret = zero cd, err = Some (New ''nil durable context''), ctx_out = ctx,
           db_out = d, world_out = w, fn_calls = 0\<rparr>
      | Some c0 \<Rightarrow>
          (case store c0 of
             None \<Rightarrow>
               \<lparr>ret = zero cd, err = Some (New ''nil durable store''), ctx_out = ctx,
                db_out = d, world_out = w, fn_calls = 0\<rparr>
           | Some st \<Rightarrow>
               (case fn of
                  None \<Rightarrow>
                    \<lparr>ret = zero cd, err = Some (New ''step function is nil''), ctx_out = ctx,
                     db_out = d, world_out = w, fn_calls = 0\<rparr>
                | Some f \<Rightarrow>
                    (case nextStepRef (unicode_ToLower e) (auto_id e) c0 id0 of
                       (ref, c) \<Rightarrow>
                         (case claimStep e c d ref of
                            ((claim, cachedJSON, Some cerr), d') \<Rightarrow>
                              \<lparr>ret = zero cd, err = Some cerr, ctx_out = Some c,
                               db_out = d', world_out = w, fn_calls = 0\<rparr>
                          | ((claim, cachedJSON, None), d') \<Rightarrow>
                              if claim = claimCached
                              then (case Unmarshal cd cachedJSON of
                                      (out, Some uerr) \<Rightarrow>
                                        \<lparr>ret = zero cd,
                                         err = Some (Errorf_w (''decode cached step result for ''
                                                  @ ref_StepKey ref @ '': '') uerr),
                                         ctx_out = Some c, db_out = d', world_out = w,
                                         fn_calls = 0\<rparr>
                                    | (out, None) \<Rightarrow>
                                        \<lparr>ret = out, err = None, ctx_out = Some c,
                                         db_out = d', world_out = w, fn_calls = 0\<rparr>)
                              else execute_closure cd e c ref f d' w)))))"

text \<open>A step function of the first kind, as a closure that hands the table back.\<close>

definition leaves_table :: "('a, 'w) stepfn \<Rightarrow> ('a, 'w) closure" where
  "leaves_table f s = (fst (f (snd s)), fst s, snd (f (snd s)))"

section \<open>The rules as the specification words them\<close>

text \<open>
  Takeover of a running row of another run is permitted when the timeout is not
  positive, or the row's \<open>updated_at\<close> does not parse, or the wall-clock time since
  \<open>updated_at\<close> has reached the timeout.
\<close>

definition zombie_policy_spec :: "int \<Rightarrow> int option \<Rightarrow> int \<Rightarrow> bool" where
  "zombie_policy_spec timeout updated now =
     (timeout \<le> 0 \<or> updated = None \<or>
      (case updated of None \<Rightarrow> False | Some u \<Rightarrow> now - u \<ge> timeout))"

text \<open>
  How many calls of a run were made with an id that normalises to \<open>k\<close>: the next call
  with such an id is the one after these.
\<close>

definition same_id :: "(rune \<Rightarrow> rune) \<Rightarrow> string \<Rightarrow> (rune list \<times> rune list) list \<Rightarrow> nat" where
  "same_id lower k calls =
     length (filter (\<lambda>x. resolveStepID lower (fst x) (snd x) = k) calls)"


section \<open>Example data\<close>

text \<open>
  The ids of the examples are ASCII, on which \<open>strings.ToLower\<close> does not consult
  \<open>unicode.ToLower\<close>.
\<close>

definition lower0 :: "rune \<Rightarrow> rune" where
  "lower0 r = r"

definition store1 :: Store where
  "store1 = \<lparr>dbPath = ''durable.db'', busyTimeout = 5000000000, maxRetries = 8,
             retryBackoff = 25000000\<rparr>"

definition ctx1 :: Context where
  "ctx1 = NewContext ''run-2'' ''wf'' (Some store1)"

definition parse1 :: "string \<Rightarrow> int option" where
  "parse1 s = (if s = ''2026-01-01T00:00:00Z'' then Some 1767225600000000000 else None)"

definition env1 :: env where
  "env1 = \<lparr>unicode_ToLower = lower0, auto_id = runes ''step_30_engine_Step[___]'',
            get_fault = None, upsert_fault = None, failed_fault = None,
            completed_fault = None, upsert_now = ''2026-01-01T00:01:00Z'',
            mark_now = ''2026-01-01T00:01:01Z'', time_Parse = parse1,
            time_Now = 1767225660000000000\<rparr>"

text \<open>The result type \<open>bool\<close> with its JSON literals.\<close>

definition bool_codec :: "bool codec" where
  "bool_codec =
     \<lparr>zero = False,
      Marshal = (\<lambda>b. (if b then ''true'' else ''false'', None)),
      Unmarshal = (\<lambda>s. if s = ''true'' then (True, None)
                        else if s = ''false'' then (False, None)
                        else (False, Some (New ''invalid character'')))\<rparr>"

text \<open>Two step functions on a world that counts their runs.\<close>

definition tick :: "(bool, nat) stepfn" where
  "tick w = ((True, None), Suc w)"

definition boom :: "(bool, nat) stepfn" where
  "boom w = ((True, Some (New ''boom'')), Suc w)"

definition completed_row :: row where
  "completed_row =
     \<lparr>step_id = ''a'', sequence = 1, status = ''completed'', output_json = Some ''true'',
      error_text = None, run_id = ''run-1'', started_at = ''2026-01-01T00:00:00Z'',
      updated_at = ''2026-01-01T00:00:00Z''\<rparr>"

definition running_row :: row where
  "running_row =
     \<lparr>step_id = ''a'', sequence = 1, status = ''running'', output_json = None,
      error_text = None, run_id = ''run-1'', started_at = ''2026-01-01T00:00:00Z'',
      updated_at = ''2026-01-01T00:00:00Z''\<rparr>"

definition db0 :: db where
  "db0 = Map.empty"

definition db1 :: db where
  "db1 = Map.empty((''wf'', ''a#000001'') \<mapsto> completed_row)"

definition db_corrupt :: db where
  "db_corrupt = Map.empty((''wf'', ''a#000001'') \<mapsto> completed_row\<lparr>output_json := Some ''not-json''\<rparr>)"

definition db_zombie :: db where
  "db_zombie = Map.empty((''wf'', ''a#000001'') \<mapsto> running_row)"

definition ref_a :: stepRef where
  "ref_a = \<lparr>ref_StepID = ''a'', ref_Sequence = 1, ref_StepKey = ''a#000001''\<rparr>"

text \<open>The same context with a zombie timeout of 24 hours.\<close>

definition ctx_wait :: Context where
  "ctx_wait = WithZombieTimeout ctx1 86400000000000"

definition noop_workflow :: "nat WorkflowFunc" where
  "noop_workflow c s = (None, s)"

text \<open>
  Two runs on one workflow id. The step function of the first run's step \<open>a\<close> runs the
  same step on the context of the second run (\<open>ctx1\<close>, whose step function succeeds)
  and then returns an error:
  \<^verbatim>\<open>Step(ctxA, "a", func() (bool, error) {
      Step(ctx1, "a", func() (bool, error) { return true, nil })
      return false, errors.New("boom") })\<close>
\<close>

definition ctx_A :: Context where
  "ctx_A = NewContext ''run-A'' ''wf'' (Some store1)"

definition nested_fn :: "(bool, nat) closure" where
  "nested_fn s =
     ((False, Some (New ''boom'')),
      db_out (Step bool_codec env1 (Some ctx1) (runes ''a'') (Some tick) (fst s) (snd s)),
      world_out (Step bool_codec env1 (Some ctx1) (runes ''a'') (Some tick) (fst s) (snd s)))"

text \<open>The table when the first run has claimed its step and calls its step function.\<close>

definition db_claimed :: db where
  "db_claimed =
     snd (claimStep env1 (snd (nextStepRef lower0 (auto_id env1) ctx_A (runes ''a''))) db0 ref_a)"

section \<open>Evaluation on concrete inputs\<close>

lemma runes_Nil: "runes [] = []"
  by (simp add: runes_def)

lemma runes_Cons: "runes (c # cs) = of_char c # runes cs"
  by (simp add: runes_def)

lemmas eval_id =
  resolveStepID_def normalise_spec_def strings_TrimSpace_def unicode_IsSpace_def
  strings_ToLower_def strings_Trim_def trim_underscores_def kept_chars_def lower0_def
  runes_Nil runes_Cons char_of_def bit_Suc_0_iff

lemma resolve_a: "resolveStepID lower0 auto (runes ''a'') = ''a''"
  by (simp add: eval_id)

lemma digits_1: "digits (Suc 0) = ''1''"
  by (simp add: digits.simps char_of_def bit_Suc_0_iff)

lemma Sprintf_1: "Sprintf_06d 1 = ''000001''"
  by (simp add: Sprintf_06d_def pad0_def digits_1 numeral_eq_Suc)

lemma ref_a_ctx1: "fst (nextStepRef lower0 auto ctx1 (runes ''a'')) = ref_a"
  by (simp add: nextStepRef_def Let_def resolve_a counter_def ctx1_def NewContext_def
      ref_a_def Sprintf_1)

lemma ref_a_ctx_wait: "fst (nextStepRef lower0 auto ctx_wait (runes ''a'')) = ref_a"
  by (simp add: nextStepRef_def Let_def resolve_a counter_def ctx_wait_def WithZombieTimeout_def
      ctx1_def NewContext_def ref_a_def Sprintf_1)

lemmas eval_env =
  env1_def ctx1_def ctx_wait_def WithZombieTimeout_def NewContext_def ref_a_def bool_codec_def
  completed_row_def running_row_def db0_def db1_def db_corrupt_def db_zombie_def
  statusCompleted_def statusRunning_def statusFailed_def asString_def parse1_def tick_def
  boom_def

lemma NewContext_fields:
  "ctx_WorkflowID (NewContext runID workflowID st) = workflowID"
  "ctx_RunID (NewContext runID workflowID st) = runID"
  "ZombieTimeout (NewContext runID workflowID st) = 0"
  "store (NewContext runID workflowID st) = st"
  by (simp_all add: NewContext_def)

lemma nextStepRef_a:
  "nextStepRef lower0 auto (NewContext runID ''wf'' (Some store1)) (runes ''a'') =
     (ref_a, (NewContext runID ''wf'' (Some store1))\<lparr>stepCounters := [''a'' \<mapsto> 1]\<rparr>)"
  by (simp add: nextStepRef_def Let_def resolve_a counter_def NewContext_def ref_a_def Sprintf_1)

lemmas eval_store =
  claimStep_def GetStep_def claim_upsert_def UpsertRunning_def execWrite_def upsert_stmt_def
  parseStepRecord_def canTakeOverZombie_def execute_def MarkCompleted_def completed_stmt_def
  MarkFailed_def failed_stmt_def asString_def statusRunning_def statusCompleted_def
  statusFailed_def

section \<open>Store operations\<close>

lemma MarkFailed_row:
  assumes "d (wid, key) = Some r"
  shows "MarkFailed None now d wid key rid msg =
           (None, d((wid, key) \<mapsto> r\<lparr>status := statusFailed, error_text := Some msg,
                                     run_id := rid, updated_at := now\<rparr>))"
  using assms by (simp add: MarkFailed_def execWrite_def failed_stmt_def)

text \<open>
  C1. A successful \<open>MarkFailed\<close> on an existing row sets status, error text, run id and
  timestamp, but its statement does not assign \<open>output_json\<close>: on a row that holds an
  output, here the completed row of \<open>db1\<close>, the output is still there afterwards, so
  the row is \<open>failed\<close> with a non-null output.
\<close>

theorem MarkFailed_keeps_output:
  "fst (MarkFailed None ''t2'' db1 ''wf'' ''a#000001'' ''run-2'' ''boom'') = None \<and>
   map_option status (snd (MarkFailed None ''t2'' db1 ''wf'' ''a#000001'' ''run-2'' ''boom'') (''wf'', ''a#000001''))
     = Some ''failed'' \<and>
   map_option error_text (snd (MarkFailed None ''t2'' db1 ''wf'' ''a#000001'' ''run-2'' ''boom'') (''wf'', ''a#000001''))
     = Some (Some ''boom'') \<and>
   map_option output_json (snd (MarkFailed None ''t2'' db1 ''wf'' ''a#000001'' ''run-2'' ''boom'') (''wf'', ''a#000001''))
     = Some (Some ''true'')"
  by (simp add: MarkFailed_def execWrite_def failed_stmt_def db1_def completed_row_def
      statusFailed_def)

section \<open>Step identity: normalisation\<close>

text \<open>What the loop writes for one rune.\<close>

lemma range_loop_append:
  "range_loop s b =
     b @ map (\<lambda>r. if (97 \<le> r \<and> r \<le> 122) \<or> (48 \<le> r \<and> r \<le> 57) \<or> r = 95 \<or> r = 45 \<or> r = 46
                    then char_of r else CHR ''_'') s"
  by (induction s arbitrary: b) simp_all

lemma kept_chars_iff:
  "r \<in> set kept_chars \<longleftrightarrow>
     (97 \<le> r \<and> r \<le> 122) \<or> (48 \<le> r \<and> r \<le> 57) \<or> r = 95 \<or> r = 45 \<or> r = 46"
  unfolding kept_chars_def runes_def by (simp; arith)

lemma range_loop_kept:
  "range_loop s [] = map (\<lambda>r. if r \<in> set kept_chars then char_of r else CHR ''_'') s"
  by (simp add: range_loop_append kept_chars_iff)

lemma of_char_written:
  "of_char (if r \<in> set kept_chars then char_of r else CHR ''_'') =
     (if r \<in> set kept_chars then r else (95::nat))"
  by (auto simp: kept_chars_iff)

lemma written_underscore:
  "((if r \<in> set kept_chars then char_of r else CHR ''_'') = CHR ''_'') =
     ((if r \<in> set kept_chars then r else 95) = (95::nat))"
proof -
  let ?c = "if r \<in> set kept_chars then char_of r else CHR ''_''"
  have "(?c = CHR ''_'') = (of_char ?c = (of_char CHR ''_'' :: nat))"
    by (simp only: of_char_eq_iff)
  then show ?thesis by (simp only: of_char_written) simp
qed

lemma trim_written:
  "runes (strings_Trim (range_loop s []) ''_'') =
     trim_underscores (map (\<lambda>r. if r \<in> set kept_chars then r else 95) s)"
proof -
  let ?w = "\<lambda>r. if r \<in> set kept_chars then char_of r else CHR ''_''"
  let ?k = "\<lambda>r. if r \<in> set kept_chars then r else (95::nat)"
  let ?P = "\<lambda>r. ?k r = 95"
  have d1: "dropWhile (\<lambda>c. c \<in> set ''_'') (map ?w xs) = map ?w (dropWhile ?P xs)" for xs
    by (simp add: dropWhile_map comp_def written_underscore)
  have d2: "dropWhile (\<lambda>r. r = 95) (map ?k xs) = map ?k (dropWhile ?P xs)" for xs
    by (simp add: dropWhile_map comp_def)
  have t1: "strings_Trim (map ?w s) ''_'' = map ?w (rev (dropWhile ?P (rev (dropWhile ?P s))))"
    by (simp only: strings_Trim_def d1 rev_map)
  have t2: "trim_underscores (map ?k s) = map ?k (rev (dropWhile ?P (rev (dropWhile ?P s))))"
    by (simp only: trim_underscores_def d2 rev_map)
  have "map of_char (map ?w xs) = map ?k xs" for xs
    by (simp add: of_char_written)
  then show ?thesis
    by (simp only: range_loop_kept t1 t2 runes_def)
qed

text \<open>
  C7. For every input that is not empty after trimming outer whitespace,
  \<open>resolveStepID\<close> returns what the rule says: the trimmed input lowercased, with every
  character outside \<open>a-z\<close>, \<open>0-9\<close>, \<open>_\<close>, \<open>-\<close>, \<open>.\<close> replaced by \<open>_\<close>, without
  leading and trailing underscores, and \<open>step\<close> when nothing is left.
\<close>

theorem resolveStepID_normalises:
  assumes "strings_TrimSpace id0 \<noteq> []"
  shows "runes (resolveStepID lower auto id0) = normalise_spec lower id0"
proof -
  let ?s = "strings_ToLower lower (strings_TrimSpace id0)"
  let ?k = "\<lambda>r. if r \<in> set kept_chars then r else (95::nat)"
  have e: "(strings_Trim (range_loop ?s []) ''_'' = []) = (trim_underscores (map ?k ?s) = [])"
    using trim_written [of ?s] unfolding runes_def by (metis map_is_Nil_conv)
  show ?thesis
  proof (cases "trim_underscores (map ?k ?s) = []")
    case True
    then show ?thesis using assms e
      by (simp add: resolveStepID_def normalise_spec_def Let_def)
  next
    case False
    then show ?thesis using assms e trim_written [of ?s]
      by (simp add: resolveStepID_def normalise_spec_def Let_def)
  qed
qed

theorem resolveStepID_normalises_witness:
  "strings_TrimSpace (runes '' Loop Step! '') \<noteq> [] \<and>
   runes (resolveStepID lower0 (auto_id env1) (runes '' Loop Step! '')) = runes ''loop_step'' \<and>
   normalise_spec lower0 (runes '' Loop Step! '') = runes ''loop_step''"
proof -
  have h: "strings_TrimSpace (runes '' Loop Step! '') \<noteq> []"
    by (simp add: eval_id)
  have v: "normalise_spec lower0 (runes '' Loop Step! '') = runes ''loop_step''"
    by (simp add: eval_id)
  show ?thesis
    using h v resolveStepID_normalises [OF h, of lower0 "auto_id env1"] by simp
qed

text \<open>
  C7 on a blank input. An input of one space is not empty, but it is empty once
  trimmed: \<open>resolveStepID\<close>
  then normalises the automatic id of the call site, where the rule applied to the input
  gives \<open>step\<close>.
\<close>

theorem resolveStepID_blank_counterexample:
  "runes '' '' \<noteq> [] \<and>
   normalise_spec lower0 (runes '' '') = runes ''step'' \<and>
   resolveStepID lower0 (runes ''step_30_engine_Step[___]'') (runes '' '') = ''step_30_engine_step'' \<and>
   runes (resolveStepID lower0 (runes ''step_30_engine_Step[___]'') (runes '' ''))
     \<noteq> normalise_spec lower0 (runes '' '')"
  by (simp add: eval_id)

section \<open>Step identity: sequence numbers\<close>

lemma counter_issue:
  "counter (stepCounters (issue lower c calls)) k =
     counter (stepCounters c) k + of_nat (same_id lower k calls)"
proof (induction calls arbitrary: c)
  case Nil
  then show ?case by (simp add: same_id_def)
next
  case (Cons x xs)
  have "counter (stepCounters (snd (nextStepRef lower (fst x) c (snd x)))) k =
          counter (stepCounters c) k + (if resolveStepID lower (fst x) (snd x) = k then 1 else 0)"
    by (simp add: nextStepRef_def Let_def counter_def)
  then show ?case using Cons.IH [of "snd (nextStepRef lower (fst x) c (snd x))"]
    by (simp add: same_id_def)
qed

lemma sint_of_nat_64:
  assumes "n < 2 ^ 63"
  shows "sint (of_nat n :: 64 word) = int n"
proof -
  have "int n < 2 ^ 63"
    using assms by (metis of_nat_less_iff of_nat_numeral of_nat_power)
  then show ?thesis
    by (simp add: signed_of_nat signed_take_bit_int_eq_self)
qed

text \<open>
  C6. On a context fresh from \<open>NewContext\<close>, after any run of \<open>nextStepRef\<close> calls, the
  next call with an id that normalises to \<open>k\<close> returns as \<open>Sequence\<close> one more than
  the number of earlier calls whose id normalises to \<open>k\<close> (so the n-th such call
  returns n), and as \<open>StepKey\<close> the text \<open>k\<close>, \<open>#\<close> and that number padded with
  zeros to six digits. The count stays below the range of Go's 64-bit \<open>int\<close>.
\<close>

theorem nextStepRef_sequence:
  assumes "same_id lower (resolveStepID lower auto id0) calls < 2 ^ 63 - 1"
  shows "fst (nextStepRef lower auto (issue lower (NewContext runID workflowID st) calls) id0) =
           \<lparr>ref_StepID = resolveStepID lower auto id0,
            ref_Sequence = 1 + int (same_id lower (resolveStepID lower auto id0) calls),
            ref_StepKey = resolveStepID lower auto id0 @ ''#'' @
              pad0 6 (digits (Suc (same_id lower (resolveStepID lower auto id0) calls)))\<rparr>"
proof -
  let ?k = "resolveStepID lower auto id0"
  let ?n = "same_id lower ?k calls"
  let ?c = "issue lower (NewContext runID workflowID st) calls"
  have "counter (stepCounters ?c) ?k = of_nat ?n"
    by (simp add: counter_issue) (simp add: NewContext_def counter_def)
  then have "counter (stepCounters ?c) ?k + 1 = (of_nat (Suc ?n) :: 64 word)"
    by simp
  moreover have "sint (of_nat (Suc ?n) :: 64 word) = int (Suc ?n)"
    using assms by (intro sint_of_nat_64) simp
  ultimately have "sint (counter (stepCounters ?c) ?k + 1) = 1 + int ?n"
    by (simp add: add.commute)
  then show ?thesis
    by (simp add: nextStepRef_def Let_def counter_def [of "_(_ \<mapsto> _)"] Sprintf_06d_def
        nat_add_distrib)
qed

theorem nextStepRef_sequence_witness:
  "same_id lower0 ''loop_step'' [([], runes ''loop_step''), ([], runes ''Loop_Step '')] < 2 ^ 63 - 1 \<and>
   fst (nextStepRef lower0 [] (issue lower0 ctx1 []) (runes ''loop_step'')) =
     \<lparr>ref_StepID = ''loop_step'', ref_Sequence = 1, ref_StepKey = ''loop_step#000001''\<rparr> \<and>
   fst (nextStepRef lower0 [] (issue lower0 ctx1 [([], runes ''loop_step'')]) (runes ''loop_step'')) =
     \<lparr>ref_StepID = ''loop_step'', ref_Sequence = 2, ref_StepKey = ''loop_step#000002''\<rparr> \<and>
   fst (nextStepRef lower0 [] (issue lower0 ctx1 [([], runes ''loop_step''), ([], runes ''Loop_Step '')])
          (runes ''loop_step'')) =
     \<lparr>ref_StepID = ''loop_step'', ref_Sequence = 3, ref_StepKey = ''loop_step#000003''\<rparr>"
proof -
  let ?x = "([] :: rune list, runes ''loop_step'')"
  let ?y = "([] :: rune list, runes ''Loop_Step '')"
  have k: "resolveStepID lower0 [] (runes ''loop_step'') = ''loop_step''"
    by (simp add: eval_id)
  have k2: "resolveStepID lower0 [] (runes ''Loop_Step '') = ''loop_step''"
    by (simp add: eval_id)
  have n0: "same_id lower0 ''loop_step'' [] = 0"
    and n1: "same_id lower0 ''loop_step'' [?x] = Suc 0"
    and n2: "same_id lower0 ''loop_step'' [?x, ?y] = Suc (Suc 0)"
    by (simp_all add: same_id_def k k2)
  have d: "digits (Suc 0) = ''1''" "digits (Suc (Suc 0)) = ''2''"
    "digits (Suc (Suc (Suc 0))) = ''3''"
    by (simp_all add: digits.simps char_of_def bit_Suc_0_iff)
  have r5: "replicate 5 CHR ''0'' = ''00000''"
    by (simp add: numeral_eq_Suc)
  have p: "pad0 6 (digits (Suc 0)) = ''000001''" "pad0 6 (digits (Suc (Suc 0))) = ''000002''"
    "pad0 6 (digits (Suc (Suc (Suc 0)))) = ''000003''"
    by (simp_all add: pad0_def d r5)
  have h0: "same_id lower0 (resolveStepID lower0 [] (runes ''loop_step'')) [] < 2 ^ 63 - 1"
    and h1: "same_id lower0 (resolveStepID lower0 [] (runes ''loop_step'')) [?x] < 2 ^ 63 - 1"
    and h2: "same_id lower0 (resolveStepID lower0 [] (runes ''loop_step'')) [?x, ?y] < 2 ^ 63 - 1"
    by (simp_all only: k n0 n1 n2) simp_all
  have r0: "fst (nextStepRef lower0 [] (issue lower0 ctx1 []) (runes ''loop_step'')) =
     \<lparr>ref_StepID = ''loop_step'', ref_Sequence = 1, ref_StepKey = ''loop_step#000001''\<rparr>"
    using nextStepRef_sequence [OF h0, of "''run-2''" "''wf''" "Some store1"]
    by (simp only: k n0 p ctx1_def) simp
  have r1: "fst (nextStepRef lower0 [] (issue lower0 ctx1 [?x]) (runes ''loop_step'')) =
     \<lparr>ref_StepID = ''loop_step'', ref_Sequence = 2, ref_StepKey = ''loop_step#000002''\<rparr>"
    using nextStepRef_sequence [OF h1, of "''run-2''" "''wf''" "Some store1"]
    by (simp only: k n1 p ctx1_def) simp
  have r2: "fst (nextStepRef lower0 [] (issue lower0 ctx1 [?x, ?y]) (runes ''loop_step'')) =
     \<lparr>ref_StepID = ''loop_step'', ref_Sequence = 3, ref_StepKey = ''loop_step#000003''\<rparr>"
    using nextStepRef_sequence [OF h2, of "''run-2''" "''wf''" "Some store1"]
    by (simp only: k n2 p ctx1_def) simp
  have "same_id lower0 ''loop_step'' [?x, ?y] < 2 ^ 63 - 1"
    by (simp only: n2) simp
  then show ?thesis using r0 r1 r2 by (simp only: simp_thms)
qed

section \<open>The step primitive: cache, failure, validation\<close>

lemma nextStepRef_context:
  "ctx_WorkflowID (snd (nextStepRef lower auto c id0)) = ctx_WorkflowID c"
  "ctx_RunID (snd (nextStepRef lower auto c id0)) = ctx_RunID c"
  "ZombieTimeout (snd (nextStepRef lower auto c id0)) = ZombieTimeout c"
  "store (snd (nextStepRef lower auto c id0)) = store c"
  by (simp_all add: nextStepRef_def Let_def)

lemma claimStep_completed:
  assumes "get_fault e = None" "d (ctx_WorkflowID c, ref_StepKey ref) = Some r"
    "status r = statusCompleted"
  shows "claimStep e c d ref = ((claimCached, asString (output_json r), None), d)"
  using assms by (simp add: claimStep_def GetStep_def parseStepRecord_def)

text \<open>
  C3. When the row of the resolved step key is \<open>completed\<close> and its stored output
  decodes, \<open>Step\<close> returns the decoded value and a nil error; the step function is not
  invoked (no call is counted and the world is as before) and the table is as before.
\<close>

theorem Step_cached_hit:
  assumes "ctx = Some c" "store c = Some st" "fn = Some f"
    and "get_fault e = None"
    and "fst (nextStepRef (unicode_ToLower e) (auto_id e) c id0) = ref"
    and "d (ctx_WorkflowID c, ref_StepKey ref) = Some r"
    and "status r = statusCompleted"
    and "Unmarshal cd (asString (output_json r)) = (v, None)"
  shows "ret (Step cd e ctx id0 fn d w) = v \<and> err (Step cd e ctx id0 fn d w) = None \<and>
         fn_calls (Step cd e ctx id0 fn d w) = 0 \<and> world_out (Step cd e ctx id0 fn d w) = w \<and>
         db_out (Step cd e ctx id0 fn d w) = d"
proof -
  obtain c' where n: "nextStepRef (unicode_ToLower e) (auto_id e) c id0 = (ref, c')"
    using assms(5) by (cases "nextStepRef (unicode_ToLower e) (auto_id e) c id0") simp
  have "ctx_WorkflowID c' = ctx_WorkflowID c"
    using nextStepRef_context(1) [of "unicode_ToLower e" "auto_id e" c id0] n by simp
  then have "claimStep e c' d ref = ((claimCached, asString (output_json r), None), d)"
    using assms(4,6,7) by (intro claimStep_completed) simp_all
  then show ?thesis
    using assms(1-3,8) n by (simp add: Step_def)
qed

theorem Step_cached_hit_witness:
  "db1 (ctx_WorkflowID ctx1, ref_StepKey ref_a) = Some completed_row \<and>
   status completed_row = statusCompleted \<and>
   ret (Step bool_codec env1 (Some ctx1) (runes ''a'') (Some boom) db1 0) = True \<and>
   err (Step bool_codec env1 (Some ctx1) (runes ''a'') (Some boom) db1 0) = None \<and>
   fn_calls (Step bool_codec env1 (Some ctx1) (runes ''a'') (Some boom) db1 0) = 0 \<and>
   world_out (Step bool_codec env1 (Some ctx1) (runes ''a'') (Some boom) db1 0) = 0 \<and>
   db_out (Step bool_codec env1 (Some ctx1) (runes ''a'') (Some boom) db1 0) = db1"
proof -
  have h1: "store ctx1 = Some store1" and h2: "get_fault env1 = None"
    by (simp_all add: eval_env)
  have h3: "fst (nextStepRef (unicode_ToLower env1) (auto_id env1) ctx1 (runes ''a'')) = ref_a"
    by (simp add: env1_def ref_a_ctx1)
  have h4: "db1 (ctx_WorkflowID ctx1, ref_StepKey ref_a) = Some completed_row"
    by (simp add: eval_env)
  have h5: "status completed_row = statusCompleted"
    by (simp add: eval_env)
  have h6: "Unmarshal bool_codec (asString (output_json completed_row)) = (True, None)"
    by (simp add: eval_env)
  show ?thesis
    using Step_cached_hit [of "Some ctx1" ctx1 store1 "Some boom" boom env1 "runes ''a''" ref_a db1
        completed_row bool_codec True 0, OF refl h1 refl h2 h3 h4 h5 h6] h4 h5 by simp
qed

text \<open>
  C4. When the row of the resolved step key is \<open>completed\<close> and its stored output does
  not decode, \<open>Step\<close> returns the error \<open>decode cached step result for <step_key>: \<close>
  followed by the decoder's message, wrapping the decoder's error; the step function is
  not invoked and the table is as before: nothing is retried or run again.
\<close>

theorem Step_cached_decode_failure:
  assumes "ctx = Some c" "store c = Some st" "fn = Some f"
    and "get_fault e = None"
    and "fst (nextStepRef (unicode_ToLower e) (auto_id e) c id0) = ref"
    and "d (ctx_WorkflowID c, ref_StepKey ref) = Some r"
    and "status r = statusCompleted"
    and "Unmarshal cd (asString (output_json r)) = (v, Some uerr)"
  shows "err (Step cd e ctx id0 fn d w) =
           Some (Wrap (''decode cached step result for '' @ ref_StepKey ref @ '': '' @ Error uerr) uerr) \<and>
         fn_calls (Step cd e ctx id0 fn d w) = 0 \<and> world_out (Step cd e ctx id0 fn d w) = w \<and>
         db_out (Step cd e ctx id0 fn d w) = d"
proof -
  obtain c' where n: "nextStepRef (unicode_ToLower e) (auto_id e) c id0 = (ref, c')"
    using assms(5) by (cases "nextStepRef (unicode_ToLower e) (auto_id e) c id0") simp
  have "ctx_WorkflowID c' = ctx_WorkflowID c"
    using nextStepRef_context(1) [of "unicode_ToLower e" "auto_id e" c id0] n by simp
  then have "claimStep e c' d ref = ((claimCached, asString (output_json r), None), d)"
    using assms(4,6,7) by (intro claimStep_completed) simp_all
  then show ?thesis
    using assms(1-3,8) n by (simp add: Step_def Errorf_w_def)
qed

theorem Step_cached_decode_failure_witness:
  "err (Step bool_codec env1 (Some ctx1) (runes ''a'') (Some tick) db_corrupt 0) =
     Some (Wrap ''decode cached step result for a#000001: invalid character''
                (New ''invalid character'')) \<and>
   fn_calls (Step bool_codec env1 (Some ctx1) (runes ''a'') (Some tick) db_corrupt 0) = 0 \<and>
   world_out (Step bool_codec env1 (Some ctx1) (runes ''a'') (Some tick) db_corrupt 0) = 0 \<and>
   db_out (Step bool_codec env1 (Some ctx1) (runes ''a'') (Some tick) db_corrupt 0) = db_corrupt"
proof -
  let ?r = "completed_row\<lparr>output_json := Some ''not-json''\<rparr>"
  have h1: "store ctx1 = Some store1" and h2: "get_fault env1 = None"
    by (simp_all add: eval_env)
  have h3: "fst (nextStepRef (unicode_ToLower env1) (auto_id env1) ctx1 (runes ''a'')) = ref_a"
    by (simp add: env1_def ref_a_ctx1)
  have h4: "db_corrupt (ctx_WorkflowID ctx1, ref_StepKey ref_a) = Some ?r"
    by (simp add: eval_env)
  have h5: "status ?r = statusCompleted"
    by (simp add: eval_env)
  have h6: "Unmarshal bool_codec (asString (output_json ?r)) = (False, Some (New ''invalid character''))"
    by (simp add: eval_env)
  show ?thesis
    using Step_cached_decode_failure [of "Some ctx1" ctx1 store1 "Some tick" tick env1 "runes ''a''"
        ref_a db_corrupt ?r bool_codec False "New ''invalid character''" 0,
        OF refl h1 refl h2 h3 h4 h5 h6]
    by (simp add: ref_a_def)
qed

lemma claimStep_failed_fault:
  "claimStep (e\<lparr>failed_fault := x\<rparr>) c d ref = claimStep e c d ref"
proof -
  have a: "claim_upsert (e\<lparr>failed_fault := x\<rparr>) c d ref what = claim_upsert e c d ref what" for what
    by (simp add: claim_upsert_def)
  have b: "canTakeOverZombie (e\<lparr>failed_fault := x\<rparr>) c r = canTakeOverZombie e c r" for r
    by (simp add: canTakeOverZombie_def split: option.splits)
  show ?thesis
    by (simp add: claimStep_def a b cong: prod.case_cong option.case_cong if_cong)
qed

text \<open>
  C8. When \<open>Step\<close> has claimed the step and the step function returns an error,
  whatever the back end answers to the \<open>MarkFailed\<close> write (\<open>flt\<close>: success or any
  error), \<open>Step\<close> returns \<open>step <key> failed: \<close> followed by the function's message,
  wrapping the function's error, and the table is what that \<open>MarkFailed\<close> attempt left.
\<close>

theorem Step_fn_error:
  assumes "ctx = Some c" "store c = Some st" "fn = Some f"
    and "fst (nextStepRef (unicode_ToLower e) (auto_id e) c id0) = ref"
    and "fst (claimStep e (snd (nextStepRef (unicode_ToLower e) (auto_id e) c id0)) d ref)
           = (claimExecute, js, None)"
    and "f w = ((v, Some ferr), w')"
  shows "err (Step cd (e\<lparr>failed_fault := flt\<rparr>) ctx id0 fn d w) =
           Some (Wrap (''step '' @ ref_StepKey ref @ '' failed: '' @ Error ferr) ferr) \<and>
         map_option Unwrap (err (Step cd (e\<lparr>failed_fault := flt\<rparr>) ctx id0 fn d w)) = Some (Some ferr) \<and>
         db_out (Step cd (e\<lparr>failed_fault := flt\<rparr>) ctx id0 fn d w) =
           snd (MarkFailed flt (mark_now e)
                  (snd (claimStep e (snd (nextStepRef (unicode_ToLower e) (auto_id e) c id0)) d ref))
                  (ctx_WorkflowID c) (ref_StepKey ref) (ctx_RunID c) (Error ferr)) \<and>
         fn_calls (Step cd (e\<lparr>failed_fault := flt\<rparr>) ctx id0 fn d w) = 1"
proof -
  obtain c' where n: "nextStepRef (unicode_ToLower e) (auto_id e) c id0 = (ref, c')"
    using assms(4) by (cases "nextStepRef (unicode_ToLower e) (auto_id e) c id0") simp
  have k: "ctx_WorkflowID c' = ctx_WorkflowID c" "ctx_RunID c' = ctx_RunID c"
    using nextStepRef_context(1,2) [of "unicode_ToLower e" "auto_id e" c id0] n by simp_all
  obtain d' where "claimStep e c' d ref = ((claimExecute, js, None), d')"
    using assms(5) n by (cases "claimStep e c' d ref") simp
  then show ?thesis
    using assms(1-3,6) n k
    by (simp add: Step_def claimStep_failed_fault execute_def Errorf_w_def)
qed

lemma claim_fresh:
  "fst (claimStep env1 (snd (nextStepRef (unicode_ToLower env1) (auto_id env1) ctx1 (runes ''a''))) db0 ref_a)
     = (claimExecute, [], None)"
  by (simp add: claimStep_def GetStep_def claim_upsert_def UpsertRunning_def execWrite_def
      db0_def env1_def)

theorem Step_fn_error_witness:
  "err (Step bool_codec (env1\<lparr>failed_fault := Some (New ''database is locked'')\<rparr>)
          (Some ctx1) (runes ''a'') (Some boom) db0 0) =
     Some (Wrap ''step a#000001 failed: boom'' (New ''boom'')) \<and>
   fn_calls (Step bool_codec (env1\<lparr>failed_fault := Some (New ''database is locked'')\<rparr>)
          (Some ctx1) (runes ''a'') (Some boom) db0 0) = 1"
proof -
  have h1: "store ctx1 = Some store1"
    by (simp add: eval_env)
  have h3: "fst (nextStepRef (unicode_ToLower env1) (auto_id env1) ctx1 (runes ''a'')) = ref_a"
    by (simp add: env1_def ref_a_ctx1)
  have h6: "boom 0 = ((True, Some (New ''boom'')), Suc 0)"
    by (simp add: boom_def)
  show ?thesis
    using Step_fn_error [of "Some ctx1" ctx1 store1 "Some boom" boom env1 "runes ''a''" ref_a db0
        "[]" 0 True "New ''boom''" "Suc 0" bool_codec "Some (New ''database is locked'')",
        OF refl h1 refl h3 claim_fresh h6]
    by (simp add: ref_a_def)
qed

text \<open>
  C9. With a nil context, a context whose store is nil, or a nil step function, \<open>Step\<close>
  returns an error, invokes nothing and leaves the table, the world and the context's
  counters as they were; with a nil store, an empty workflow id or a nil workflow
  function, \<open>RunWorkflow\<close> returns an error, invokes nothing and leaves table and world
  as they were.
\<close>

theorem input_validation:
  "((case ctx of None \<Rightarrow> True | Some c \<Rightarrow> store c = None) \<or> fn = None \<longrightarrow>
      err (Step cd e ctx id0 fn d w) \<noteq> None \<and> fn_calls (Step cd e ctx id0 fn d w) = 0 \<and>
      world_out (Step cd e ctx id0 fn d w) = w \<and> db_out (Step cd e ctx id0 fn d w) = d \<and>
      ctx_out (Step cd e ctx id0 fn d w) = ctx) \<and>
   (st = None \<or> workflowID = [] \<or> wfn = None \<longrightarrow>
      fst (fst (RunWorkflow runID st workflowID wfn s)) \<noteq> None \<and>
      snd (fst (RunWorkflow runID st workflowID wfn s)) = s \<and>
      snd (RunWorkflow runID st workflowID wfn s) = 0)"
  by (auto simp: Step_def RunWorkflow_def split: option.splits)

theorem input_validation_witness:
  "err (Step bool_codec env1 None (runes ''a'') (Some tick) db1 0) \<noteq> None \<and>
   fn_calls (Step bool_codec env1 None (runes ''a'') (Some tick) db1 0) = 0 \<and>
   world_out (Step bool_codec env1 None (runes ''a'') (Some tick) db1 0) = 0 \<and>
   db_out (Step bool_codec env1 None (runes ''a'') (Some tick) db1 0) = db1 \<and>
   fst (fst (RunWorkflow ''run-2'' (Some store1) [] (Some noop_workflow) (db1, 0))) \<noteq> None \<and>
   snd (fst (RunWorkflow ''run-2'' (Some store1) [] (Some noop_workflow) (db1, 0))) = (db1, 0) \<and>
   snd (RunWorkflow ''run-2'' (Some store1) [] (Some noop_workflow) (db1, 0)) = 0"
  using input_validation [of None "Some tick" bool_codec env1 "runes ''a''" db1 0
      "Some store1" "[]" "Some noop_workflow" "''run-2''" "(db1, 0)"]
  by simp

text \<open>
  C10. Whenever \<open>Step\<close> returns an error, the value it returns with it is the zero
  value of the result type.
\<close>

theorem Step_error_zero:
  "err (Step cd e ctx id0 fn d w) \<noteq> None \<Longrightarrow> ret (Step cd e ctx id0 fn d w) = zero cd"
  by (auto simp: Step_def execute_def split: option.splits prod.splits if_splits)

lemma Step_boom_fresh:
  "err (Step bool_codec env1 (Some ctx1) (runes ''a'') (Some boom) db0 0) =
     Some (Wrap ''step a#000001 failed: boom'' (New ''boom''))"
proof -
  obtain c' where n: "nextStepRef (unicode_ToLower env1) (auto_id env1) ctx1 (runes ''a'') = (ref_a, c')"
    using ref_a_ctx1 [of "auto_id env1"]
    by (cases "nextStepRef (unicode_ToLower env1) (auto_id env1) ctx1 (runes ''a'')")
       (simp add: env1_def)
  obtain d' where "claimStep env1 c' db0 ref_a = ((claimExecute, [], None), d')"
    using claim_fresh n by (cases "claimStep env1 c' db0 ref_a") simp
  then show ?thesis
    using n by (simp add: Step_def execute_def boom_def Errorf_w_def ref_a_def ctx1_def NewContext_def)
qed

theorem Step_error_zero_witness:
  "err (Step bool_codec env1 (Some ctx1) (runes ''a'') (Some boom) db0 0) \<noteq> None \<and>
   fst (fst (boom 0)) = True \<and>
   ret (Step bool_codec env1 (Some ctx1) (runes ''a'') (Some boom) db0 0) = False"
proof -
  have h: "err (Step bool_codec env1 (Some ctx1) (runes ''a'') (Some boom) db0 0) \<noteq> None"
    by (simp add: Step_boom_fresh)
  show ?thesis
    using h Step_error_zero [OF h] by (simp add: boom_def bool_codec_def)
qed

section \<open>Completed rows\<close>

text \<open>
  A \<open>Step\<close> call whose step function leaves the table alone does not change a
  completed row, whatever its context, id and outside conditions.
\<close>

lemma upsert_stmt_completed:
  assumes "d (wid, key) = Some r" "status r = statusCompleted"
  shows "upsert_stmt now workflowID ref runID d (wid, key) = Some r"
  using assms by (auto simp: upsert_stmt_def split: option.splits)

lemma upsert_stmt_completed_same:
  assumes "d (wid, ref_StepKey ref) = Some r" "status r = statusCompleted"
  shows "upsert_stmt now wid ref runID d = d"
  using assms by (simp add: upsert_stmt_def)

lemma claimStep_db_completed:
  assumes "d (wid, key) = Some r" "status r = statusCompleted"
  shows "snd (claimStep e c d ref) (wid, key) = Some r"
  using assms
  by (auto simp: upsert_stmt_completed claimStep_def claim_upsert_def UpsertRunning_def
      execWrite_def GetStep_def split: option.splits prod.splits)

lemma claimStep_execute_other:
  assumes "d (wid, key) = Some r" "status r = statusCompleted"
    and "fst (claimStep e c d ref) = (claimExecute, js, None)"
  shows "(ctx_WorkflowID c, ref_StepKey ref) \<noteq> (wid, key)"
  using assms
  by (auto simp: claimStep_def GetStep_def parseStepRecord_def split: option.splits)

lemma execute_db_other:
  assumes "(ctx_WorkflowID c, ref_StepKey ref) \<noteq> (wid, key)"
  shows "db_out (execute cd e c ref f d w) (wid, key) = d (wid, key)"
  using assms
  by (auto simp: execute_def MarkFailed_def MarkCompleted_def execWrite_def failed_stmt_def
      completed_stmt_def split: option.splits prod.splits)

lemma Step_keeps_completed:
  assumes "d (wid, key) = Some r" "status r = statusCompleted"
  shows "db_out (Step cd e ctx id0 fn d w) (wid, key) = Some r"
proof (cases "\<exists>c st f. ctx = Some c \<and> store c = Some st \<and> fn = Some f")
  case False
  then show ?thesis using assms by (auto simp: Step_def split: option.splits)
next
  case True
  then obtain c st f where h: "ctx = Some c" "store c = Some st" "fn = Some f" by blast
  obtain ref c' where n: "nextStepRef (unicode_ToLower e) (auto_id e) c id0 = (ref, c')"
    by (cases "nextStepRef (unicode_ToLower e) (auto_id e) c id0")
  obtain claim js cerr d' where cl: "claimStep e c' d ref = ((claim, js, cerr), d')"
    by (metis prod.exhaust)
  have d': "d' (wid, key) = Some r"
    using claimStep_db_completed [of d wid key r e c' ref] assms cl by simp
  show ?thesis
  proof (cases "cerr = None \<and> claim = claimExecute")
    case False
    then show ?thesis using h n cl d'
      by (cases claim) (auto simp: Step_def split: option.splits prod.splits)
  next
    case True
    then have "(ctx_WorkflowID c', ref_StepKey ref) \<noteq> (wid, key)"
      using claimStep_execute_other [of d wid key r e c' ref js] assms cl by simp
    then show ?thesis using h n cl d' True
      by (simp add: Step_def execute_db_other)
  qed
qed

lemma UpsertRunning_completed:
  assumes "d (wid, ref_StepKey ref) = Some r" "status r = statusCompleted"
  shows "UpsertRunning fault now d wid ref runID = (fault, d)"
  using assms
  by (simp add: upsert_stmt_completed_same UpsertRunning_def execWrite_def split: option.splits)

text \<open>
  With a step function that leaves the table alone, \<open>Step_closure\<close> is \<open>Step\<close>.
\<close>

lemma execute_closure_leaves_table:
  "execute_closure cd e c ref (leaves_table f) d w = execute cd e c ref f d w"
proof -
  obtain r ferr w' where "f w = ((r, ferr), w')"
    by (metis prod.exhaust)
  then show ?thesis
    by (simp add: execute_closure_def execute_def leaves_table_def split: option.splits prod.splits)
qed

lemma Step_closure_leaves_table:
  "Step_closure cd e ctx id0 (map_option leaves_table fn) d w = Step cd e ctx id0 fn d w"
  by (simp add: Step_closure_def Step_def execute_closure_leaves_table
      split: option.splits prod.splits)

text \<open>
  The overlap of two runs, write by write: the first run claims the row; inside its step
  function the second run takes the row over and completes it; the first run's step
  function then fails and its \<open>MarkFailed\<close> rewrites the row.
\<close>

lemma db_claimed_eq:
  "db_claimed = [(''wf'', ''a#000001'') \<mapsto>
      \<lparr>step_id = ''a'', sequence = 1, status = ''running'', output_json = None,
       error_text = None, run_id = ''run-A'', started_at = ''2026-01-01T00:01:00Z'',
       updated_at = ''2026-01-01T00:01:00Z''\<rparr>]"
  by (simp add: db_claimed_def ctx_A_def nextStepRef_a NewContext_fields eval_store env1_def
      db0_def ref_a_def)

lemma inner_takes_over:
  "db_out (Step bool_codec env1 (Some ctx1) (runes ''a'') (Some tick) db_claimed w) =
     [(''wf'', ''a#000001'') \<mapsto>
      \<lparr>step_id = ''a'', sequence = 1, status = ''completed'', output_json = Some ''true'',
       error_text = None, run_id = ''run-2'', started_at = ''2026-01-01T00:01:00Z'',
       updated_at = ''2026-01-01T00:01:01Z''\<rparr>]"
  by (simp add: Step_def ctx1_def NewContext_fields nextStepRef_a db_claimed_eq eval_store
      env1_def ref_a_def bool_codec_def tick_def)

lemma outer_fails:
  "db_out (Step_closure bool_codec env1 (Some ctx_A) (runes ''a'') (Some nested_fn) db0 0) =
     [(''wf'', ''a#000001'') \<mapsto>
      \<lparr>step_id = ''a'', sequence = 1, status = ''failed'', output_json = Some ''true'',
       error_text = Some ''boom'', run_id = ''run-A'', started_at = ''2026-01-01T00:01:00Z'',
       updated_at = ''2026-01-01T00:01:01Z''\<rparr>]"
proof -
  have c: "claimStep env1 ((NewContext ''run-A'' ''wf'' (Some store1))\<lparr>stepCounters := [''a'' \<mapsto> 1]\<rparr>)
             db0 ref_a = ((claimExecute, [], None), db_claimed)"
    by (simp add: db_claimed_def ctx_A_def nextStepRef_a eval_store NewContext_fields env1_def
        db0_def)
  show ?thesis
    using c [unfolded env1_def]
    by (simp add: Step_closure_def ctx_A_def NewContext_fields nextStepRef_a
        execute_closure_def nested_fn_def inner_takes_over [unfolded env1_def]
        MarkFailed_def execWrite_def failed_stmt_def env1_def ref_a_def statusFailed_def
        Errorf_w_def)
qed

text \<open>
  C2. A completed row does go back to \<open>failed\<close>: when the step function of the first
  run returns, the row is \<open>completed\<close> (by the second run, with output \<open>true\<close>), and
  when the first run's \<open>Step\<close> returns, the same row is \<open>failed\<close> under the first
  run's id, its output still in place. \<open>UpsertRunning\<close> checks the status of the row it
  meets; the \<open>UPDATE\<close> of \<open>MarkFailed\<close> does not.
\<close>

theorem nested_Step_fails_completed_row:
  "map_option status (fst (snd (nested_fn (db_claimed, 0))) (''wf'', ''a#000001''))
     = Some ''completed'' \<and>
   map_option status
     (db_out (Step_closure bool_codec env1 (Some ctx_A) (runes ''a'') (Some nested_fn) db0 0)
        (''wf'', ''a#000001'')) = Some ''failed'' \<and>
   map_option output_json
     (db_out (Step_closure bool_codec env1 (Some ctx_A) (runes ''a'') (Some nested_fn) db0 0)
        (''wf'', ''a#000001'')) = Some (Some ''true'') \<and>
   map_option run_id
     (db_out (Step_closure bool_codec env1 (Some ctx_A) (runes ''a'') (Some nested_fn) db0 0)
        (''wf'', ''a#000001'')) = Some ''run-A''"
  by (simp add: outer_fails nested_fn_def inner_takes_over)

section \<open>Zombie takeover\<close>

lemma time_Sub_ge:
  assumes "t \<le> 2 ^ 63 - 1" "0 < t"
  shows "(t \<le> time_Sub a b) = (t \<le> a - b)"
  using assms by (auto simp: time_Sub_def)

lemma sint_64_le: "sint (z :: 64 word) \<le> 2 ^ 63 - 1"
  using sint_lt [of z] by simp

lemma canTakeOverZombie_policy:
  "canTakeOverZombie e c record =
     zombie_policy_spec (sint (ZombieTimeout c)) (time_Parse e (UpdatedAt record)) (time_Now e)"
  using time_Sub_ge [OF sint_64_le, of "ZombieTimeout c"]
  by (auto simp: canTakeOverZombie_def zombie_policy_spec_def split: option.splits)

text \<open>
  C5. \<open>canTakeOverZombie\<close> is true exactly when the timeout is not positive, or
  \<open>updated_at\<close> does not parse, or the clock minus \<open>updated_at\<close> has reached the
  timeout. For a \<open>running\<close> row of another run, read and upserted without a back-end
  failure: under that condition the claim rewrites the row to \<open>running\<close> under the
  context's run id and the step function is invoked once; otherwise \<open>Step\<close> returns
  \<open>step <key> is still running under run_id=<owner>\<close>, the step function is not
  invoked and the table is as before.
\<close>

theorem zombie_takeover:
  assumes "ctx = Some c" "store c = Some st" "fn = Some f"
    and "get_fault e = None" "upsert_fault e = None"
    and "fst (nextStepRef (unicode_ToLower e) (auto_id e) c id0) = ref"
    and "d (ctx_WorkflowID c, ref_StepKey ref) = Some r"
    and "status r = statusRunning" "run_id r \<noteq> ctx_RunID c"
  shows "canTakeOverZombie e c record =
           zombie_policy_spec (sint (ZombieTimeout c)) (time_Parse e (UpdatedAt record)) (time_Now e) \<and>
         (if zombie_policy_spec (sint (ZombieTimeout c)) (time_Parse e (updated_at r)) (time_Now e)
          then claimStep e (snd (nextStepRef (unicode_ToLower e) (auto_id e) c id0)) d ref =
                 ((claimExecute, [], None),
                  d((ctx_WorkflowID c, ref_StepKey ref) \<mapsto>
                    r\<lparr>status := statusRunning, output_json := None, error_text := None,
                      run_id := ctx_RunID c, started_at := upsert_now e,
                      updated_at := upsert_now e\<rparr>)) \<and>
               fn_calls (Step cd e ctx id0 fn d w) = 1 \<and>
               world_out (Step cd e ctx id0 fn d w) = snd (f w)
          else err (Step cd e ctx id0 fn d w) =
                 Some (New (''step '' @ ref_StepKey ref @ '' is still running under run_id='' @ run_id r)) \<and>
               fn_calls (Step cd e ctx id0 fn d w) = 0 \<and>
               world_out (Step cd e ctx id0 fn d w) = w \<and>
               db_out (Step cd e ctx id0 fn d w) = d)"
proof -
  obtain c' where n: "nextStepRef (unicode_ToLower e) (auto_id e) c id0 = (ref, c')"
    using assms(6) by (cases "nextStepRef (unicode_ToLower e) (auto_id e) c id0") simp
  have k: "ctx_WorkflowID c' = ctx_WorkflowID c" "ctx_RunID c' = ctx_RunID c"
    "ZombieTimeout c' = ZombieTimeout c"
    using nextStepRef_context(1,2,3) [of "unicode_ToLower e" "auto_id e" c id0] n by simp_all
  have st: "statusRunning \<noteq> statusCompleted" "statusRunning \<noteq> statusFailed"
    by (simp_all add: statusRunning_def statusCompleted_def statusFailed_def)
  let ?rec = "parseStepRecord (ctx_WorkflowID c) (ref_StepKey ref) r"
  let ?pol = "zombie_policy_spec (sint (ZombieTimeout c)) (time_Parse e (updated_at r)) (time_Now e)"
  have g: "GetStep (get_fault e) d (ctx_WorkflowID c') (ref_StepKey ref) = (?rec, True, None)"
    using assms(4,7) k by (simp add: GetStep_def)
  have p: "canTakeOverZombie e c' ?rec = ?pol"
    by (simp add: canTakeOverZombie_policy k parseStepRecord_def)
  have fields: "Status ?rec = statusRunning" "RunID ?rec = run_id r"
    using assms(8) by (simp_all add: parseStepRecord_def)
  show ?thesis
  proof (cases ?pol)
    case True
    have cl: "claimStep e c' d ref =
                 ((claimExecute, [], None),
                  d((ctx_WorkflowID c, ref_StepKey ref) \<mapsto>
                    r\<lparr>status := statusRunning, output_json := None, error_text := None,
                      run_id := ctx_RunID c, started_at := upsert_now e,
                      updated_at := upsert_now e\<rparr>))"
      using assms(5,7,8,9) k st True p g fields
      by (simp add: claimStep_def claim_upsert_def UpsertRunning_def execWrite_def
          upsert_stmt_def)
    have "fn_calls (Step cd e ctx id0 fn d w) = 1 \<and> world_out (Step cd e ctx id0 fn d w) = snd (f w)"
      using assms(1-3) n cl
      by (auto simp: Step_def execute_def split: prod.splits option.splits)
    then show ?thesis using True cl n canTakeOverZombie_policy by simp
  next
    case False
    have cl: "claimStep e c' d ref =
                 ((claimExecute, [],
                   Some (New (''step '' @ ref_StepKey ref @ '' is still running under run_id='' @ run_id r))), d)"
      using assms(9) k st False p g fields
      by (simp add: claimStep_def)
    then show ?thesis using False assms(1-3) n canTakeOverZombie_policy by (simp add: Step_def)
  qed
qed

theorem zombie_takeover_witness:
  "db_zombie (''wf'', ''a#000001'') = Some running_row \<and>
   run_id running_row \<noteq> ctx_RunID ctx1 \<and>
   canTakeOverZombie env1 ctx1 (parseStepRecord ''wf'' ''a#000001'' running_row) \<and>
   fn_calls (Step bool_codec env1 (Some ctx1) (runes ''a'') (Some tick) db_zombie 0) = 1 \<and>
   world_out (Step bool_codec env1 (Some ctx1) (runes ''a'') (Some tick) db_zombie 0) = 1 \<and>
   \<not> canTakeOverZombie env1 ctx_wait (parseStepRecord ''wf'' ''a#000001'' running_row) \<and>
   err (Step bool_codec env1 (Some ctx_wait) (runes ''a'') (Some tick) db_zombie 0) =
     Some (New ''step a#000001 is still running under run_id=run-1'') \<and>
   fn_calls (Step bool_codec env1 (Some ctx_wait) (runes ''a'') (Some tick) db_zombie 0) = 0 \<and>
   world_out (Step bool_codec env1 (Some ctx_wait) (runes ''a'') (Some tick) db_zombie 0) = 0 \<and>
   db_out (Step bool_codec env1 (Some ctx_wait) (runes ''a'') (Some tick) db_zombie 0) = db_zombie"
proof -
  let ?rec = "parseStepRecord ''wf'' ''a#000001'' running_row"
  have s1: "store ctx1 = Some store1" and s2: "store ctx_wait = Some store1"
    by (simp_all add: eval_env)
  have g: "get_fault env1 = None" and u: "upsert_fault env1 = None"
    by (simp_all add: env1_def)
  have n1: "fst (nextStepRef (unicode_ToLower env1) (auto_id env1) ctx1 (runes ''a'')) = ref_a"
    by (simp add: env1_def ref_a_ctx1)
  have n2: "fst (nextStepRef (unicode_ToLower env1) (auto_id env1) ctx_wait (runes ''a'')) = ref_a"
    by (simp add: env1_def ref_a_ctx_wait)
  have r1: "db_zombie (ctx_WorkflowID ctx1, ref_StepKey ref_a) = Some running_row"
    and r2: "db_zombie (ctx_WorkflowID ctx_wait, ref_StepKey ref_a) = Some running_row"
    by (simp_all add: eval_env)
  have st: "status running_row = statusRunning"
    by (simp add: eval_env)
  have o1: "run_id running_row \<noteq> ctx_RunID ctx1"
    and o2: "run_id running_row \<noteq> ctx_RunID ctx_wait"
    by (simp_all add: eval_env)
  have p1: "zombie_policy_spec (sint (ZombieTimeout ctx1)) (time_Parse env1 (updated_at running_row))
              (time_Now env1)"
    by (simp add: zombie_policy_spec_def eval_env)
  have p2: "\<not> zombie_policy_spec (sint (ZombieTimeout ctx_wait))
              (time_Parse env1 (updated_at running_row)) (time_Now env1)"
    by (simp add: zombie_policy_spec_def eval_env)
  have u1: "UpdatedAt ?rec = updated_at running_row"
    by (simp add: parseStepRecord_def)
  have rk: "ref_StepKey ref_a = ''a#000001''" and rid: "run_id running_row = ''run-1''"
    by (simp_all add: ref_a_def running_row_def)
  have a: "canTakeOverZombie env1 ctx1 ?rec \<and>
           fn_calls (Step bool_codec env1 (Some ctx1) (runes ''a'') (Some tick) db_zombie 0) = 1 \<and>
           world_out (Step bool_codec env1 (Some ctx1) (runes ''a'') (Some tick) db_zombie 0) = 1"
    using zombie_takeover [of "Some ctx1" ctx1 store1 "Some tick" tick env1 "runes ''a''" ref_a
        db_zombie running_row ?rec bool_codec 0, OF refl s1 refl g u n1 r1 st o1] p1
    by (simp add: u1 tick_def)
  have b: "\<not> canTakeOverZombie env1 ctx_wait ?rec \<and>
           err (Step bool_codec env1 (Some ctx_wait) (runes ''a'') (Some tick) db_zombie 0) =
             Some (New ''step a#000001 is still running under run_id=run-1'') \<and>
           fn_calls (Step bool_codec env1 (Some ctx_wait) (runes ''a'') (Some tick) db_zombie 0) = 0 \<and>
           world_out (Step bool_codec env1 (Some ctx_wait) (runes ''a'') (Some tick) db_zombie 0) = 0 \<and>
           db_out (Step bool_codec env1 (Some ctx_wait) (runes ''a'') (Some tick) db_zombie 0) = db_zombie"
    using zombie_takeover [of "Some ctx_wait" ctx_wait store1 "Some tick" tick env1 "runes ''a''"
        ref_a db_zombie running_row ?rec bool_codec 0, OF refl s2 refl g u n2 r2 st o2] p2
    by (simp add: u1 rk rid)
  have "db_zombie (''wf'', ''a#000001'') = Some running_row"
    by (simp add: db_zombie_def)
  then show ?thesis using a b o1 by simp
qed

end
